theory Spec2Isabelle
  imports Complex_Main "HOL-Library.Word"
begin

section \<open>Book3D: the page-turn animator\<close>

text \<open>
  The component \<open>Book3D\<close> (components/Book3D.tsx) keeps two pieces of React state,
  \<open>currentRotation\<close> and \<open>turningDirection\<close>, and one ref, \<open>dragAccumulator\<close>.
  JavaScript numbers are modelled as real numbers, page indices as integers.

  The three effects of the component are modelled with the semantics React gives them:
  \<^item> an effect runs after a render when one of its dependencies differs from the
    previous render's;
  \<^item> inside an effect, \<open>currentRotation\<close>, \<open>turningDirection\<close> and the props are the
    values of that render (the closure), whatever has been set since;
  \<^item> a state setter does not change the render's values: it queues the new value for
    the next render; queued updates are applied in the order issued, and an updater
    function \<open>prev => ...\<close> receives the value left by the updates queued before it;
  \<^item> a ref (\<open>dragAccumulator.current\<close>) is an ordinary mutable cell, read and written
    at once;
  \<^item> the effects of one render run in the order they are declared, all before the
    next render.
  The animation frame that \<open>animateSnap\<close> requests is cancelled by the effect's cleanup
  when the next render commits; the model takes that render to come before the frame, so
  that each run of the snap effect applies its updater once.
\<close>

datatype direction = Next | Prev

record props =
  gestureValue :: real
  gestureId :: nat
  isGestureActive :: bool
  currentPage :: int
  numPages :: int

text \<open>
  The state of a mounted component: the two state variables as of the last render's
  commit, the ref, and the dependencies of the previous render that decide which
  effects run (the props and the \<open>turningDirection\<close> of that render).
\<close>

record book3d =
  currentRotation :: real
  turningDirection :: "direction option"
  dragAccumulator :: real
  prevProps :: props
  prevDirection :: "direction option"

text \<open>
  What the effects of one render have written so far: the queued values of the two
  state variables, the ref, and the calls of \<open>onPageTurnComplete\<close> in order.
\<close>

record flush =
  nextRotation :: real
  nextDirection :: "direction option"
  accumulator :: real
  completed :: "int list"

subsection \<open>Reset on page change (lines 28-32)\<close>

definition resetEffect :: "flush \<Rightarrow> flush" where
  "resetEffect f = f\<lparr>accumulator := 0, nextRotation := 0, nextDirection := None\<rparr>"

subsection \<open>Gesture physics (lines 35-85)\<close>

definition dragRotationNext :: "real \<Rightarrow> real" where
  "dragRotationNext acc =
     (let rot = max (-180) (min 0 acc);
          progress = \<bar>rot\<bar> / 180;
          eased = 1 - (1 - progress) ^ 3
      in -180 * eased)"

definition dragRotationPrev :: "real \<Rightarrow> real" where
  "dragRotationPrev acc =
     (let rot = max (-180) (min 0 (-180 + acc));
          progress = (180 + rot) / 180;
          eased = 1 - (1 - progress) ^ 3
      in -180 + 180 * eased)"

definition startDirection :: "props \<Rightarrow> real \<Rightarrow> flush \<Rightarrow> flush" where
  "startDirection p acc f =
     (if acc \<le> -10 \<and> currentPage p < numPages p - 1 then f\<lparr>nextDirection := Some Next\<rparr>
      else if acc \<ge> 10 \<and> currentPage p > 0 then f\<lparr>nextDirection := Some Prev\<rparr>
      else f)"

definition gestureEffect :: "props \<Rightarrow> book3d \<Rightarrow> flush \<Rightarrow> flush" where
  "gestureEffect p s f =
     (if \<not> isGestureActive p then f
      else let delta = gestureValue p in
        if delta = 0 then f
        else let sensitivity = 1;
                 acc = accumulator f + delta * sensitivity;
                 f1 = f\<lparr>accumulator := acc\<rparr>;
                 f2 = (if turningDirection s = None then startDirection p acc f1 else f1)
             in case turningDirection s of
                  Some Next \<Rightarrow> f2\<lparr>nextRotation := dragRotationNext acc\<rparr>
                | Some Prev \<Rightarrow> f2\<lparr>nextRotation := dragRotationPrev acc\<rparr>
                | None \<Rightarrow> f2)"

subsection \<open>Release and snap (lines 88-145)\<close>

definition snapTarget :: "direction \<Rightarrow> real \<Rightarrow> int \<Rightarrow> real \<times> int" where
  "snapTarget d rot page =
     (let threshold = -90 in
      case d of
        Next \<Rightarrow> if rot < threshold then (-180, page + 1) else (0, page)
      | Prev \<Rightarrow> if rot > threshold then (0, page - 1) else (-180, page))"

datatype outcome = Animating | TurnComplete int | SnappedBack

text \<open>The updater function passed to \<open>setCurrentRotation\<close> by \<open>animateSnap\<close>.\<close>

definition snapUpdater :: "real \<Rightarrow> direction \<Rightarrow> int \<Rightarrow> real \<Rightarrow> real \<times> outcome" where
  "snapUpdater targetRot d targetPage prev =
     (let diff = targetRot - prev in
      if \<bar>diff\<bar> < 2 then
        (if targetRot = -180 \<and> d = Next then (targetRot, TurnComplete targetPage)
         else if targetRot = 0 \<and> d = Prev then (targetRot, TurnComplete targetPage)
         else (targetRot, SnappedBack))
      else (prev + diff * 0.22, Animating))"

definition animateSnap :: "real \<Rightarrow> direction \<Rightarrow> int \<Rightarrow> flush \<Rightarrow> flush" where
  "animateSnap targetRot d targetPage f =
     (case snapUpdater targetRot d targetPage (nextRotation f) of
        (r, Animating) \<Rightarrow> f\<lparr>nextRotation := r\<rparr>
      | (r, TurnComplete n) \<Rightarrow> f\<lparr>nextRotation := r, completed := completed f @ [n]\<rparr>
      | (r, SnappedBack) \<Rightarrow> f\<lparr>nextRotation := r, nextDirection := None, accumulator := 0\<rparr>)"

definition snapEffect :: "props \<Rightarrow> book3d \<Rightarrow> flush \<Rightarrow> flush" where
  "snapEffect p s f =
     (case turningDirection s of
        None \<Rightarrow> f
      | Some d \<Rightarrow>
          if isGestureActive p then f
          else let (targetRot, targetPage) = snapTarget d (currentRotation s) (currentPage p)
               in animateSnap targetRot d targetPage f)"

subsection \<open>One render of the component\<close>

text \<open>
  The dependency lists: \<open>[currentPage]\<close> for the reset,
  \<open>[gestureSignal, isGestureActive, currentPage, content.pages.length, turningDirection]\<close>
  for the gesture effect. The snap effect depends on both state variables and on the
  callback \<open>onPageTurnComplete\<close>, which its parents create anew at each of their
  renders: it runs after every render.
\<close>

definition gestureDepsChanged :: "props \<Rightarrow> book3d \<Rightarrow> bool" where
  "gestureDepsChanged p s \<longleftrightarrow>
     gestureId p \<noteq> gestureId (prevProps s) \<or>
     isGestureActive p \<noteq> isGestureActive (prevProps s) \<or>
     currentPage p \<noteq> currentPage (prevProps s) \<or>
     numPages p \<noteq> numPages (prevProps s) \<or>
     turningDirection s \<noteq> prevDirection s"

definition runEffects :: "props \<Rightarrow> book3d \<Rightarrow> flush" where
  "runEffects p s =
     (let f0 = \<lparr>nextRotation = currentRotation s, nextDirection = turningDirection s,
                accumulator = dragAccumulator s, completed = []\<rparr>;
          f1 = (if currentPage p \<noteq> currentPage (prevProps s) then resetEffect f0 else f0);
          f2 = (if gestureDepsChanged p s then gestureEffect p s f1 else f1)
      in snapEffect p s f2)"

definition render :: "props \<Rightarrow> book3d \<Rightarrow> book3d \<times> int list" where
  "render p s =
     (let f = runEffects p s
      in (\<lparr>currentRotation = nextRotation f, turningDirection = nextDirection f,
           dragAccumulator = accumulator f, prevProps = p,
           prevDirection = turningDirection s\<rparr>,
          completed f))"

text \<open>The component after its first render with props \<open>p\<close>, no gesture being active.\<close>

definition mounted :: "props \<Rightarrow> book3d" where
  "mounted p = \<lparr>currentRotation = 0, turningDirection = None, dragAccumulator = 0,
                prevProps = p, prevDirection = None\<rparr>"

definition renders :: "props list \<Rightarrow> book3d \<Rightarrow> book3d" where
  "renders ps s = foldl (\<lambda>s p. fst (render p s)) s ps"

definition inRange :: "real \<Rightarrow> bool" where
  "inRange r \<longleftrightarrow> -180 \<le> r \<and> r \<le> 0"

text \<open>
  The rotation after \<open>k\<close> applications of the snap updater with a fixed target: the
  frames of one snap animation.
\<close>

definition snapFrames :: "real \<Rightarrow> direction \<Rightarrow> int \<Rightarrow> nat \<Rightarrow> real \<Rightarrow> real" where
  "snapFrames t d n k r = ((\<lambda>x. fst (snapUpdater t d n x)) ^^ k) r"

subsection \<open>The component under its parent\<close>

text \<open>
  The parent (\<open>BookView\<close>, components/BookView.tsx) owns the props: \<open>triggerFlip\<close>
  (lines 142-147) injects a gesture of -190 or 190 and sets it active, the timer it
  starts sets it inactive after 120ms, and \<open>handleTurnComplete\<close> (lines 307-309)
  stores the page the animator reports.
\<close>

definition triggerFlip :: "direction \<Rightarrow> props \<Rightarrow> props" where
  "triggerFlip dir p =
     p\<lparr>gestureValue := (if dir = Next then -190 else 190),
       gestureId := gestureId p + 1,
       isGestureActive := True\<rparr>"

definition gestureEnd :: "props \<Rightarrow> props" where
  "gestureEnd p = p\<lparr>isGestureActive := False\<rparr>"

definition handleTurnComplete :: "int \<Rightarrow> props \<Rightarrow> props" where
  "handleTurnComplete newPage p = p\<lparr>currentPage := newPage\<rparr>"

text \<open>
  One render of parent and child: the child's effects run, and the calls of
  \<open>onPageTurnComplete\<close> they made update the parent's page for the next render.
\<close>

definition renderPass :: "props \<times> book3d \<Rightarrow> (props \<times> book3d) \<times> int list" where
  "renderPass sys =
     (case sys of (p, s) \<Rightarrow>
        (case render p s of (s', calls) \<Rightarrow>
           ((foldl (\<lambda>q n. handleTurnComplete n q) p calls, s'), calls)))"

definition stateChanged :: "props \<times> book3d \<Rightarrow> props \<times> book3d \<Rightarrow> bool" where
  "stateChanged a b \<longleftrightarrow>
     fst b \<noteq> fst a \<or>
     currentRotation (snd b) \<noteq> currentRotation (snd a) \<or>
     turningDirection (snd b) \<noteq> turningDirection (snd a)"

text \<open>
  React renders again as long as a render's effects changed some state. \<open>settle k\<close>
  renders until nothing changes, at most \<open>k\<close> times (\<open>None\<close>: still changing after
  \<open>k\<close> renders), and collects the calls of \<open>onPageTurnComplete\<close>.
\<close>

fun settle :: "nat \<Rightarrow> props \<times> book3d \<Rightarrow> ((props \<times> book3d) \<times> int list) option" where
  "settle 0 sys = None"
| "settle (Suc k) sys =
     (case renderPass sys of (sys', calls) \<Rightarrow>
        if stateChanged sys sys'
        then map_option (\<lambda>(final, later). (final, calls @ later)) (settle k sys')
        else Some (sys', calls))"

text \<open>A whole injected gesture: the flip is triggered, and 120ms later the gesture ends.\<close>

definition flipAndRelease ::
  "nat \<Rightarrow> direction \<Rightarrow> props \<times> book3d \<Rightarrow> ((props \<times> book3d) \<times> int list) option" where
  "flipAndRelease k dir sys =
     (case settle k (triggerFlip dir (fst sys), snd sys) of
        None \<Rightarrow> None
      | Some ((p1, s1), calls1) \<Rightarrow>
          map_option (\<lambda>(final, calls2). (final, calls1 @ calls2))
            (settle k (gestureEnd p1, s1)))"

definition book :: "int \<Rightarrow> int \<Rightarrow> props" where
  "book page n = \<lparr>gestureValue = 0, gestureId = 0, isGestureActive = False,
                  currentPage = page, numPages = n\<rparr>"



section \<open>BookView: the debounce and latch controller\<close>

text \<open>
  The per-frame \<open>loop\<close> of components/BookView.tsx (lines 156-225). Each frame reads
  the clock and the globals the hand tracker writes; its refs are the controller's
  state. The result lists the calls of \<open>triggerFlip\<close> the frame made.
\<close>

datatype side = Left | Right

datatype orient = Front | Back | Neutral

datatype flipMode = Hand | Swipe | Orientation

record frameInput =
  now :: real
  mode :: flipMode
  handSide :: "side option"
  handOrient :: orient
  handFist :: bool
  pointerX :: real

record swipeState =
  startX :: "real option"
  lastX :: real
  swipeActive :: bool

record controller =
  cooldownRef :: real
  prevOrientRef :: orient
  swipeStateRef :: swipeState
  holdStartRef :: "real option"
  latchedRef :: bool

definition loopOrientation :: "frameInput \<Rightarrow> controller \<Rightarrow> controller \<times> direction list" where
  "loopOrientation i c =
     (let orient = handOrient i; fist = handFist i;
          (c1, out) =
            (if now i \<ge> cooldownRef c then
               if prevOrientRef c = Neutral \<and> orient = Front \<and> fist
               then (c\<lparr>cooldownRef := now i + 500\<rparr>, [Next])
               else if prevOrientRef c = Neutral \<and> orient = Back \<and> fist
               then (c\<lparr>cooldownRef := now i + 500\<rparr>, [Prev])
               else (c, [])
             else (c, []))
      in (c1\<lparr>prevOrientRef := (if \<not> fist then Neutral else orient)\<rparr>, out))"

text \<open>\<open>state.startX || x\<close>: a start that is null or 0 is replaced by \<open>x\<close>.\<close>

definition loopSwipe :: "frameInput \<Rightarrow> controller \<Rightarrow> controller \<times> direction list" where
  "loopSwipe i c =
     (let x = pointerX i; sd = handSide i; st = swipeStateRef c in
      if \<not> swipeActive st
      then (c\<lparr>swipeStateRef := \<lparr>startX = Some x, lastX = x, swipeActive = True\<rparr>\<rparr>, [])
      else
        let dx = x - (case startX st of None \<Rightarrow> x | Some sx \<Rightarrow> if sx = 0 then x else sx);
            st1 = st\<lparr>lastX := x\<rparr>
        in if now i \<ge> cooldownRef c \<and> sd \<noteq> None then
             if sd = Some Right \<and> dx > 120
             then (c\<lparr>cooldownRef := now i + 500,
                     swipeStateRef := st1\<lparr>swipeActive := False\<rparr>\<rparr>, [Next])
             else if sd = Some Left \<and> dx < -120
             then (c\<lparr>cooldownRef := now i + 500,
                     swipeStateRef := st1\<lparr>swipeActive := False\<rparr>\<rparr>, [Prev])
             else (c\<lparr>swipeStateRef := st1\<rparr>, [])
           else (c\<lparr>swipeStateRef := st1\<rparr>, []))"

text \<open>
  Hand mode (lines 183-222). \<open>!holdStartRef.current\<close> holds for null and for 0.
\<close>

definition loopHand :: "frameInput \<Rightarrow> controller \<Rightarrow> controller \<times> direction list" where
  "loopHand i c =
     (case handSide i of
        None \<Rightarrow> (c\<lparr>holdStartRef := None, latchedRef := False\<rparr>, [])
      | Some rawSide \<Rightarrow>
          let start = (case holdStartRef c of
                         None \<Rightarrow> now i
                       | Some h \<Rightarrow> if h = 0 then now i else h);
              c1 = c\<lparr>holdStartRef := Some start\<rparr>;
              held = now i - start
          in if \<not> latchedRef c \<and> held \<ge> 200 \<and> now i \<ge> cooldownRef c
             then (c1\<lparr>latchedRef := True, cooldownRef := now i + 1000\<rparr>,
                   [if rawSide = Left then Next else Prev])
             else (c1, []))"

definition loop :: "frameInput \<Rightarrow> controller \<Rightarrow> controller \<times> direction list" where
  "loop i c =
     (case mode i of
        Orientation \<Rightarrow> loopOrientation i c
      | Swipe \<Rightarrow> loopSwipe i c
      | Hand \<Rightarrow> loopHand i c)"

fun runLoop :: "frameInput list \<Rightarrow> controller \<Rightarrow> controller \<times> direction list" where
  "runLoop [] c = (c, [])"
| "runLoop (i # rest) c =
     (case loop i c of (c1, out) \<Rightarrow>
        (case runLoop rest c1 of (c2, later) \<Rightarrow> (c2, out @ later)))"

text \<open>A hand-mode frame at time \<open>t\<close> showing the side \<open>sd\<close>.\<close>

definition handFrame :: "real \<Rightarrow> side option \<Rightarrow> frameInput" where
  "handFrame t sd = \<lparr>now = t, mode = Hand, handSide = sd, handOrient = Neutral,
                     handFist = False, pointerX = 0\<rparr>"

definition idleController :: controller where
  "idleController = \<lparr>cooldownRef = 0, prevOrientRef = Neutral,
     swipeStateRef = \<lparr>startX = None, lastX = 0, swipeActive = False\<rparr>,
     holdStartRef = None, latchedRef = False\<rparr>"

section \<open>useOpticalFlow: the motion extractor\<close>

text \<open>
  \<open>processFrame\<close> of hooks/useOpticalFlow.ts (lines 61-164), from the grayscale buffer
  on. A frame is the \<open>Uint8Array\<close> of 64 * 48 intensities that
  \<open>getImageData(0, 0, width, height)\<close> yields; offsets and coordinates are integers,
  match errors are compared as real numbers.
\<close>

definition width :: int where
  "width = 64"

definition height :: int where
  "height = 48"

definition pixel :: "8 word list \<Rightarrow> int \<Rightarrow> real" where
  "pixel frame idx = real (unat (frame ! nat idx))"

text \<open>\<open>for (v = lo; v < hi; v += step)\<close>: the values the loop variable takes.\<close>

function forRange :: "int \<Rightarrow> int \<Rightarrow> int \<Rightarrow> int list" where
  "forRange lo hi step =
     (if lo < hi \<and> 0 < step then lo # forRange (lo + step) hi step else [])"
  by pat_completeness auto
termination
  by (relation "measure (\<lambda>(lo, hi, step). nat (hi - lo))") auto

declare forRange.simps [simp del]

text \<open>
  The search window (lines 111-129): \<open>best\<close> is the pair \<open>(bestDx, minDiff)\<close>; one
  step looks at the offset \<open>dx\<close>.
\<close>

definition searchStep ::
  "8 word list \<Rightarrow> int \<Rightarrow> int \<Rightarrow> real \<Rightarrow> int \<times> real \<Rightarrow> int \<Rightarrow> int \<times> real" where
  "searchStep currentFrame y x prevVal best dx =
     (if dx = 0 then best
      else let currVal = pixel currentFrame (y * width + (x + dx));
               diff = \<bar>currVal - prevVal\<bar>
           in if diff < snd best * 0.8 then (dx, diff) else best)"

definition searchWindow :: "8 word list \<Rightarrow> 8 word list \<Rightarrow> int \<Rightarrow> int \<Rightarrow> int \<times> real" where
  "searchWindow prevFrame currentFrame y x =
     (let idx = y * width + x;
          prevVal = pixel prevFrame idx;
          zeroDiff = \<bar>pixel currentFrame idx - prevVal\<bar>
      in foldl (searchStep currentFrame y x prevVal) (0, zeroDiff) (forRange (-4) 5 1))"

text \<open>
  One sample point (lines 97-134): \<open>acc\<close> is the pair \<open>(deltaX, validPoints)\<close>.
\<close>

definition samplePoint ::
  "8 word list \<Rightarrow> 8 word list \<Rightarrow> int \<Rightarrow> int \<times> nat \<Rightarrow> int \<Rightarrow> int \<times> nat" where
  "samplePoint prevFrame currentFrame y acc x =
     (let idx = y * width + x;
          gx = \<bar>pixel prevFrame (idx - 1) - pixel prevFrame (idx + 1)\<bar>
      in if gx < 30 then acc
         else let bestDx = fst (searchWindow prevFrame currentFrame y x)
              in if bestDx \<noteq> 0 then (fst acc + bestDx, snd acc + 1) else acc)"

definition flowEstimate :: "8 word list \<Rightarrow> 8 word list \<Rightarrow> int \<times> nat" where
  "flowEstimate prevFrame currentFrame =
     foldl (\<lambda>acc y. foldl (samplePoint prevFrame currentFrame y) acc
                       (forRange 10 (width - 10) 4))
       (0, 0) (forRange 10 (height - 10) 4)"

record opticalFlow =
  prevFrameRef :: "8 word list option"
  isActiveRef :: bool
  motionAccumulator :: real
  lastMotionTime :: real

datatype flowEvent = Gesture real | GestureEnd

text \<open>Lines 138-152: what a frame's estimate makes of the hook's state and callbacks.\<close>

definition registerGesture :: "real \<Rightarrow> int \<times> nat \<Rightarrow> opticalFlow \<Rightarrow> opticalFlow \<times> flowEvent list" where
  "registerGesture time est st =
     (let deltaX = fst est; validPoints = snd est in
      if validPoints > 5 then
        let avgDx = real_of_int deltaX / real validPoints in
        if \<bar>avgDx\<bar> > 0.5 then
          let rawInput = avgDx in
          (st\<lparr>motionAccumulator := motionAccumulator st + rawInput,
              lastMotionTime := time, isActiveRef := True\<rparr>,
           [Gesture (rawInput * 30)])
        else (st, [])
      else (st, []))"

definition processFrame :: "real \<Rightarrow> 8 word list \<Rightarrow> opticalFlow \<Rightarrow> opticalFlow \<times> flowEvent list" where
  "processFrame time currentFrame st =
     (let (st1, ev1) =
            (case prevFrameRef st of
               None \<Rightarrow> (st, [])
             | Some prevFrame \<Rightarrow> registerGesture time (flowEstimate prevFrame currentFrame) st);
          (st2, ev2) =
            (if isActiveRef st1 \<and> time - lastMotionTime st1 > 150
             then (st1\<lparr>isActiveRef := False, motionAccumulator := 0\<rparr>, [GestureEnd])
             else (st1, []))
      in (st2\<lparr>prevFrameRef := Some currentFrame\<rparr>, ev1 @ ev2))"

text \<open>
  The match error of the offset \<open>dx\<close> at a sample point: the distance between the
  current frame's pixel at that offset and the previous frame's pixel at the point
  (\<open>zeroDiff\<close> for offset 0, \<open>diff\<close> in the search loop).
\<close>

definition matchError :: "8 word list \<Rightarrow> 8 word list \<Rightarrow> int \<Rightarrow> int \<Rightarrow> int \<Rightarrow> real" where
  "matchError prevFrame currentFrame y x dx =
     \<bar>pixel currentFrame (y * width + (x + dx)) - pixel prevFrame (y * width + x)\<bar>"

text \<open>The state of the search: still at zero, or at an accepted offset.\<close>

definition searchInv :: "8 word list \<Rightarrow> 8 word list \<Rightarrow> int \<Rightarrow> int \<Rightarrow> int \<times> real \<Rightarrow> bool" where
  "searchInv prev cur y x best \<longleftrightarrow>
     (fst best = 0 \<and> snd best = matchError prev cur y x 0) \<or>
     (fst best \<noteq> 0 \<and> snd best = matchError prev cur y x (fst best) \<and>
      snd best < 0.8 * matchError prev cur y x 0)"

text \<open>
  Events of a frame: the calls of \<open>onGesture\<close>, and those whose delta is decisive (above
  the deadzone times the gain, at most the window times the gain).
\<close>

definition isGesture :: "flowEvent \<Rightarrow> bool" where
  "isGesture e = (case e of Gesture g \<Rightarrow> True | GestureEnd \<Rightarrow> False)"

definition decisive :: "flowEvent \<Rightarrow> bool" where
  "decisive e = (case e of Gesture g \<Rightarrow> 15 < \<bar>g\<bar> \<and> \<bar>g\<bar> \<le> 120 | GestureEnd \<Rightarrow> True)"

section \<open>Properties of the animator\<close>

subsection \<open>The clamp invariant\<close>

lemma dragRotationNext_range: "inRange (dragRotationNext acc)"
proof -
  define rot where "rot = max (-180) (min 0 acc)"
  define progress where "progress = \<bar>rot\<bar> / 180"
  have r: "-180 \<le> rot" "rot \<le> 0" by (simp_all add: rot_def)
  have p: "0 \<le> 1 - progress" "1 - progress \<le> 1" using r by (simp_all add: progress_def)
  have "0 \<le> (1 - progress) ^ 3" "(1 - progress) ^ 3 \<le> 1"
    using p by (simp_all add: power_le_one)
  then show ?thesis
    by (simp add: dragRotationNext_def Let_def inRange_def rot_def progress_def)
qed

lemma dragRotationPrev_range: "inRange (dragRotationPrev acc)"
proof -
  define rot where "rot = max (-180) (min 0 (-180 + acc))"
  define progress where "progress = (180 + rot) / 180"
  have r: "-180 \<le> rot" "rot \<le> 0" by (simp_all add: rot_def)
  have p: "0 \<le> 1 - progress" "1 - progress \<le> 1" using r by (simp_all add: progress_def)
  have "0 \<le> (1 - progress) ^ 3" "(1 - progress) ^ 3 \<le> 1"
    using p by (simp_all add: power_le_one)
  then show ?thesis
    by (simp add: dragRotationPrev_def Let_def inRange_def rot_def progress_def)
qed

lemma snapTarget_cases:
  "fst (snapTarget d rot page) = 0 \<or> fst (snapTarget d rot page) = -180"
  by (cases d) (simp_all add: snapTarget_def)

lemma snapUpdater_range:
  assumes "t = 0 \<or> t = -180" and "inRange prev"
  shows "inRange (fst (snapUpdater t d n prev))"
proof (cases "\<bar>t - prev\<bar> < 2")
  case True
  then have "fst (snapUpdater t d n prev) = t" by (simp add: snapUpdater_def Let_def)
  then show ?thesis using assms(1) by (auto simp: inRange_def)
next
  case False
  then have e: "fst (snapUpdater t d n prev) = prev + (t - prev) * 0.22"
    by (simp add: snapUpdater_def Let_def)
  have b: "-180 \<le> prev" "prev \<le> 0" using assms(2) by (simp_all add: inRange_def)
  have "-180 \<le> prev + (t - prev) * 0.22 \<and> prev + (t - prev) * 0.22 \<le> 0"
  proof (cases "t = 0")
    case True
    then show ?thesis using b by simp
  next
    case False
    then have "t = -180" using assms(1) by simp
    then show ?thesis using b by (auto simp: field_simps)
  qed
  then show ?thesis by (simp add: e inRange_def)
qed

lemma resetEffect_range: "inRange (nextRotation (resetEffect f))"
  by (simp add: resetEffect_def inRange_def)

lemma gestureEffect_range:
  "inRange (nextRotation f) \<Longrightarrow> inRange (nextRotation (gestureEffect p s f))"
  using dragRotationNext_range dragRotationPrev_range
  by (auto simp: gestureEffect_def Let_def startDirection_def
      split: option.splits direction.splits)

lemma animateSnap_range:
  assumes "t = 0 \<or> t = -180" and "inRange (nextRotation f)"
  shows "inRange (nextRotation (animateSnap t d n f))"
proof -
  obtain r oc where u: "snapUpdater t d n (nextRotation f) = (r, oc)"
    by (cases "snapUpdater t d n (nextRotation f)")
  have "inRange r" using snapUpdater_range [OF assms, of d n] u by simp
  then show ?thesis by (cases oc) (simp_all add: animateSnap_def u)
qed

lemma snapEffect_range:
  assumes "inRange (nextRotation f)"
  shows "inRange (nextRotation (snapEffect p s f))"
proof (cases "turningDirection s")
  case None
  then show ?thesis using assms by (simp add: snapEffect_def)
next
  case (Some d)
  obtain t n where tn: "snapTarget d (currentRotation s) (currentPage p) = (t, n)"
    by (cases "snapTarget d (currentRotation s) (currentPage p)")
  have "t = 0 \<or> t = -180"
    using snapTarget_cases [of d "currentRotation s" "currentPage p"] tn by simp
  then show ?thesis
    using assms animateSnap_range [of t f d n] by (simp add: snapEffect_def Some tn)
qed

lemma render_range:
  assumes "inRange (currentRotation s)"
  shows "inRange (currentRotation (fst (render p s)))"
proof -
  let ?f0 = "\<lparr>nextRotation = currentRotation s, nextDirection = turningDirection s,
              accumulator = dragAccumulator s, completed = []\<rparr>"
  let ?f1 = "if currentPage p \<noteq> currentPage (prevProps s) then resetEffect ?f0 else ?f0"
  let ?f2 = "if gestureDepsChanged p s then gestureEffect p s ?f1 else ?f1"
  have 1: "inRange (nextRotation ?f1)" using assms resetEffect_range by simp
  have 2: "inRange (nextRotation ?f2)" using 1 gestureEffect_range by simp
  have "inRange (nextRotation (snapEffect p s ?f2))" using 2 by (rule snapEffect_range)
  then show ?thesis by (simp add: render_def runEffects_def Let_def)
qed

lemma renders_range:
  "inRange (currentRotation s) \<Longrightarrow> inRange (currentRotation (renders ps s))"
proof (induction ps arbitrary: s)
  case Nil
  then show ?case by (simp add: renders_def)
next
  case (Cons p ps)
  have "inRange (currentRotation (fst (render p s)))" using Cons.prems by (rule render_range)
  then have "inRange (currentRotation (renders ps (fst (render p s))))" by (rule Cons.IH)
  then show ?case by (simp add: renders_def)
qed

text \<open>
  C1. The rotation never leaves the closed interval from -180 to 0: after any sequence of
  renders of a mounted component, with any props whatever (any gesture deltas while the
  gesture is active, any number of snap steps after its release, any page changes), the
  value of \<open>currentRotation\<close> is at least -180 and at most 0.
\<close>

theorem rotation_clamped:
  "-180 \<le> currentRotation (renders ps (mounted p0)) \<and>
   currentRotation (renders ps (mounted p0)) \<le> 0"
proof -
  have "inRange (currentRotation (mounted p0))" by (simp add: mounted_def inRange_def)
  then have "inRange (currentRotation (renders ps (mounted p0)))" by (rule renders_range)
  then show ?thesis by (simp add: inRange_def)
qed


theorem rotation_clamped_witness:
  "-180 \<le> currentRotation
      (renders [triggerFlip Next (book 0 5), triggerFlip Next (book 0 5),
                gestureEnd (triggerFlip Next (book 0 5))] (mounted (book 0 5))) \<and>
   currentRotation
      (renders [triggerFlip Next (book 0 5), triggerFlip Next (book 0 5),
                gestureEnd (triggerFlip Next (book 0 5))] (mounted (book 0 5))) \<le> 0"
  by (rule rotation_clamped)

subsection \<open>The snap iteration\<close>

lemma snapUpdater_near: "\<bar>t - r\<bar> < 2 \<Longrightarrow> fst (snapUpdater t d n r) = t"
  by (simp add: snapUpdater_def Let_def)

lemma snapUpdater_far: "\<not> \<bar>t - r\<bar> < 2 \<Longrightarrow> fst (snapUpdater t d n r) = r + (t - r) * 0.22"
  by (simp add: snapUpdater_def Let_def)

lemma snapUpdater_between:
  "min r t \<le> fst (snapUpdater t d n r) \<and> fst (snapUpdater t d n r) \<le> max r t"
proof (cases "\<bar>t - r\<bar> < 2")
  case True
  then show ?thesis by (simp add: snapUpdater_near)
next
  case False
  then show ?thesis by (simp add: snapUpdater_far) (auto simp: min_def max_def field_simps)
qed

lemma snapUpdater_shrinks:
  "\<not> \<bar>t - r\<bar> < 2 \<Longrightarrow> \<bar>t - fst (snapUpdater t d n r)\<bar> = 0.78 * \<bar>t - r\<bar>"
proof -
  assume f: "\<not> \<bar>t - r\<bar> < 2"
  have e: "t - (r + (t - r) * 0.22) = 0.78 * (t - r)" by (simp add: field_simps)
  have "\<bar>t - (r + (t - r) * 0.22)\<bar> = \<bar>0.78 * (t - r)\<bar>" by (simp only: e)
  also have "\<dots> = \<bar>0.78\<bar> * \<bar>t - r\<bar>" by (rule abs_mult)
  also have "\<dots> = 0.78 * \<bar>t - r\<bar>" by simp
  finally show ?thesis by (simp only: snapUpdater_far [OF f])
qed

lemma snapUpdater_contracts:
  "\<bar>t - fst (snapUpdater t d n r)\<bar> \<le> 0.78 * \<bar>t - r\<bar>"
proof (cases "\<bar>t - r\<bar> < 2")
  case True
  then show ?thesis by (simp add: snapUpdater_near)
next
  case False
  then show ?thesis using snapUpdater_shrinks [of t r d n] by simp
qed

lemma snapFrames_Suc:
  "snapFrames t d n (Suc k) r = fst (snapUpdater t d n (snapFrames t d n k r))"
  by (simp add: snapFrames_def)

lemma snapFrames_distance: "\<bar>t - snapFrames t d n k r\<bar> \<le> 0.78 ^ k * \<bar>t - r\<bar>"
proof (induction k)
  case 0
  then show ?case by (simp add: snapFrames_def)
next
  case (Suc k)
  have "\<bar>t - snapFrames t d n (Suc k) r\<bar> \<le> 0.78 * \<bar>t - snapFrames t d n k r\<bar>"
    unfolding snapFrames_Suc by (rule snapUpdater_contracts)
  also have "\<dots> \<le> 0.78 * (0.78 ^ k * \<bar>t - r\<bar>)" using Suc.IH by simp
  finally show ?case by simp
qed

lemma damping_19: "(0.78::real) ^ 19 * 180 < 2"
  by (simp add: power_numeral_reduce)

lemma snapFrames_done:
  assumes "\<bar>t - r\<bar> \<le> 180"
  shows "snapFrames t d n 20 r = t"
proof -
  have "\<bar>t - snapFrames t d n 19 r\<bar> \<le> 0.78 ^ 19 * \<bar>t - r\<bar>" by (rule snapFrames_distance)
  also have "\<dots> \<le> 0.78 ^ 19 * 180" using assms by simp
  also have "\<dots> < 2" by (rule damping_19)
  finally have "\<bar>t - snapFrames t d n 19 r\<bar> < 2" .
  then have "fst (snapUpdater t d n (snapFrames t d n 19 r)) = t" by (rule snapUpdater_near)
  moreover have "snapFrames t d n 20 r = fst (snapUpdater t d n (snapFrames t d n 19 r))"
    using snapFrames_Suc [of t d n 19 r] by simp
  ultimately show ?thesis by simp
qed

lemma snapFrames_stays: "snapFrames t d n k r = t \<Longrightarrow> snapFrames t d n (k + j) r = t"
proof (induction j)
  case 0
  then show ?case by simp
next
  case (Suc j)
  then have "snapFrames t d n (k + j) r = t" by simp
  then show ?case using snapFrames_Suc [of t d n "k + j" r] by (simp add: snapUpdater_near)
qed

text \<open>
  C10. For a snap target \<open>t\<close> of 0 or -180 and a rotation \<open>r\<close> between -180 and 0, one
  step of the snap updater returns \<open>t\<close> itself when \<open>r\<close> is within 2 degrees of it and
  \<open>r + (t - r) * 0.22\<close> otherwise; the result lies between \<open>r\<close> and \<open>t\<close>, so the step
  moves toward the target and never past it; the distance left is 0.78 times the
  distance before (0 once within 2 degrees); after \<open>k\<close> steps it is at most
  \<open>0.78 ^ k\<close> times the first distance; and after 20 steps, or any number beyond, the
  rotation is exactly \<open>t\<close>: the animation ends.
\<close>

theorem snap_converges:
  assumes "t = 0 \<or> t = -180" and "-180 \<le> r" and "r \<le> 0"
  shows "fst (snapUpdater t d n r) = (if \<bar>t - r\<bar> < 2 then t else r + (t - r) * 0.22) \<and>
         min r t \<le> fst (snapUpdater t d n r) \<and> fst (snapUpdater t d n r) \<le> max r t \<and>
         \<bar>t - fst (snapUpdater t d n r)\<bar> = (if \<bar>t - r\<bar> < 2 then 0 else 0.78 * \<bar>t - r\<bar>) \<and>
         \<bar>t - snapFrames t d n k r\<bar> \<le> 0.78 ^ k * \<bar>t - r\<bar> \<and>
         snapFrames t d n (20 + j) r = t"
proof -
  have d: "\<bar>t - r\<bar> \<le> 180" using assms by auto
  have 1: "fst (snapUpdater t d n r) = (if \<bar>t - r\<bar> < 2 then t else r + (t - r) * 0.22)"
    by (simp add: snapUpdater_near snapUpdater_far)
  have 2: "\<bar>t - fst (snapUpdater t d n r)\<bar> = (if \<bar>t - r\<bar> < 2 then 0 else 0.78 * \<bar>t - r\<bar>)"
    using snapUpdater_shrinks [of t r d n] by (simp add: snapUpdater_near)
  have 3: "snapFrames t d n (20 + j) r = t"
    using snapFrames_done [OF d] by (rule snapFrames_stays)
  show ?thesis
    using 1 2 3 snapUpdater_between [of r t d n] snapFrames_distance [of t d n k r] by blast
qed

theorem snap_converges_witness:
  "((-180::real) = 0 \<or> (-180::real) = -180) \<and> (-180::real) \<le> -100 \<and> (-100::real) \<le> 0 \<and>
   fst (snapUpdater (-180) Next 1 (-100)) = -117.6 \<and>
   -180 \<le> fst (snapUpdater (-180) Next 1 (-100)) \<and>
   fst (snapUpdater (-180) Next 1 (-100)) \<le> -100 \<and>
   \<bar>-180 - fst (snapUpdater (-180) Next 1 (-100))\<bar> = 62.4 \<and>
   \<bar>-180 - snapFrames (-180) Next 1 2 (-100)\<bar> \<le> 0.78 ^ 2 * 80 \<and>
   snapFrames (-180) Next 1 20 (-100) = -180"
  using snap_converges [of "-180" "-100" Next 1 2 0] by simp

subsection \<open>Rendering until the state is stable\<close>

















subsection \<open>Release at the midpoint\<close>




subsection \<open>A whole injected flip\<close>

text \<open>
  C2. Page 0 of a 5-page book, one injected gesture of -190, then the gesture's end.
  While the gesture is active the renders settle with direction next, rotation -180 and
  no call; after its end \<open>onPageTurnComplete\<close> is called once, with 1, the parent is on
  page 1 and the direction is cleared. The rotation is then -39.6 and not 0: the render
  that follows the page change runs the reset and, after it, the snap effect with the
  direction and rotation of the turn just finished, whose updater moves the reset value
  0 by 22% toward -180.
  The same stale run of the snap effect follows a turn back: from page 2 of 5, one
  gesture of 190 and its end call \<open>onPageTurnComplete\<close> twice, with 1 and then with 0,
  and the parent ends on page 0 (the reset leaves the rotation at 0, which is the target
  of a committed turn back, so the updater completes again).
\<close>

theorem flip_next_leaves_rotation:
  "settle 3 (triggerFlip Next (book 0 5), mounted (book 0 5)) =
     Some ((triggerFlip Next (book 0 5),
            \<lparr>currentRotation = -180, turningDirection = Some Next, dragAccumulator = -380,
             prevProps = triggerFlip Next (book 0 5), prevDirection = Some Next\<rparr>), []) \<and>
   flipAndRelease 3 Next (book 0 5, mounted (book 0 5)) =
     Some ((\<lparr>gestureValue = -190, gestureId = 1, isGestureActive = False,
             currentPage = 1, numPages = 5\<rparr>,
            \<lparr>currentRotation = -198/5, turningDirection = None, dragAccumulator = 0,
             prevProps = \<lparr>gestureValue = -190, gestureId = 1, isGestureActive = False,
                          currentPage = 1, numPages = 5\<rparr>,
             prevDirection = None\<rparr>), [1]) \<and>
   flipAndRelease 3 Prev (book 2 5, mounted (book 2 5)) =
     Some ((\<lparr>gestureValue = 190, gestureId = 1, isGestureActive = False,
             currentPage = 0, numPages = 5\<rparr>,
            \<lparr>currentRotation = 0, turningDirection = None, dragAccumulator = 0,
             prevProps = \<lparr>gestureValue = 190, gestureId = 1, isGestureActive = False,
                          currentPage = 0, numPages = 5\<rparr>,
             prevDirection = None\<rparr>), [1, 0])"
  by code_simp

subsection \<open>The guard on starting a drag\<close>

text \<open>
  C9. A gesture refused for want of a page is not inert. On page 0 of a 5-page book a
  gesture of 190 (a turn back, which has no page to go to) sets no direction, moves
  nothing and calls nothing, but leaves 190 in the drag accumulator, which by its
  declaration tracks the gesture of the current turn and which the snap-back and the
  page change clear; a gesture of -190 after it only brings the accumulator back to 0
  and turns no page, where the same gesture on a cleared accumulator turns to page 1.
\<close>

theorem refused_gesture_not_inert:
  "flipAndRelease 3 Prev (book 0 5, mounted (book 0 5)) =
     Some ((\<lparr>gestureValue = 190, gestureId = 1, isGestureActive = False,
             currentPage = 0, numPages = 5\<rparr>,
            \<lparr>currentRotation = 0, turningDirection = None, dragAccumulator = 190,
             prevProps = \<lparr>gestureValue = 190, gestureId = 1, isGestureActive = False,
                          currentPage = 0, numPages = 5\<rparr>,
             prevDirection = None\<rparr>), []) \<and>
   map_option snd (flipAndRelease 3 Next
     (\<lparr>gestureValue = 190, gestureId = 1, isGestureActive = False,
       currentPage = 0, numPages = 5\<rparr>,
      \<lparr>currentRotation = 0, turningDirection = None, dragAccumulator = 190,
       prevProps = \<lparr>gestureValue = 190, gestureId = 1, isGestureActive = False,
                    currentPage = 0, numPages = 5\<rparr>,
       prevDirection = None\<rparr>)) = Some [] \<and>
   map_option snd (flipAndRelease 3 Next
     (\<lparr>gestureValue = 190, gestureId = 1, isGestureActive = False,
       currentPage = 0, numPages = 5\<rparr>,
      \<lparr>currentRotation = 0, turningDirection = None, dragAccumulator = 0,
       prevProps = \<lparr>gestureValue = 190, gestureId = 1, isGestureActive = False,
                    currentPage = 0, numPages = 5\<rparr>,
       prevDirection = None\<rparr>)) = Some [1]"
  by code_simp

text \<open>
  The guard itself: in a render that starts with no direction set, the direction
  becomes next only if the gesture effect ran on a nonzero delta, the accumulator is at
  most -10 and a next page exists (\<open>currentPage < numPages - 1\<close>); it becomes previous
  only if the accumulator is at least 10 and \<open>currentPage > 0\<close>; in every other case,
  also when the accumulator has crossed a threshold and the page is missing, it stays
  null. Such a render never calls \<open>onPageTurnComplete\<close> and leaves the rotation alone
  (a page change resets it to 0). The delta is added to the drag accumulator whether or
  not a drag starts.
\<close>

theorem drag_guard:
  assumes "turningDirection s = None"
  shows "turningDirection (fst (render p s)) =
           (if gestureDepsChanged p s \<and> isGestureActive p \<and> gestureValue p \<noteq> 0 then
              if dragAccumulator (fst (render p s)) \<le> -10 \<and> currentPage p < numPages p - 1
              then Some Next
              else if 10 \<le> dragAccumulator (fst (render p s)) \<and> 0 < currentPage p
              then Some Prev
              else None
            else None) \<and>
         dragAccumulator (fst (render p s)) =
           (if currentPage p \<noteq> currentPage (prevProps s) then 0 else dragAccumulator s) +
           (if gestureDepsChanged p s \<and> isGestureActive p \<and> gestureValue p \<noteq> 0
            then gestureValue p else 0) \<and>
         currentRotation (fst (render p s)) =
           (if currentPage p \<noteq> currentPage (prevProps s) then 0 else currentRotation s) \<and>
         snd (render p s) = []"
  using assms
  by (simp add: render_def runEffects_def gestureEffect_def snapEffect_def resetEffect_def
      startDirection_def Let_def)

theorem drag_guard_witness:
  "turningDirection (mounted (book 0 5)) = None \<and>
   turningDirection (fst (render (triggerFlip Prev (book 0 5)) (mounted (book 0 5)))) = None \<and>
   dragAccumulator (fst (render (triggerFlip Prev (book 0 5)) (mounted (book 0 5)))) = 190 \<and>
   currentRotation (fst (render (triggerFlip Prev (book 0 5)) (mounted (book 0 5)))) = 0 \<and>
   snd (render (triggerFlip Prev (book 0 5)) (mounted (book 0 5))) = []"
  using drag_guard [of "mounted (book 0 5)" "triggerFlip Prev (book 0 5)"]
  by (simp add: mounted_def book_def triggerFlip_def gestureDepsChanged_def)


section \<open>Properties of the controller\<close>

lemma runLoop_Cons:
  "snd (runLoop (i # fs) c) = snd (loop i c) @ snd (runLoop fs (fst (loop i c)))"
  "fst (runLoop (i # fs) c) = fst (runLoop fs (fst (loop i c)))"
  by (simp_all split: prod.splits)

lemma loop_in_cooldown:
  "now i < cooldownRef c \<Longrightarrow> snd (loop i c) = [] \<and> cooldownRef (fst (loop i c)) = cooldownRef c"
  by (cases "mode i")
     (simp_all add: loop_def loopHand_def loopSwipe_def loopOrientation_def Let_def
       split: option.splits)

lemma runLoop_in_cooldown:
  "\<forall>i\<in>set frames. now i < cooldownRef c \<Longrightarrow>
   snd (runLoop frames c) = [] \<and> cooldownRef (fst (runLoop frames c)) = cooldownRef c"
proof (induction frames arbitrary: c)
  case Nil
  then show ?case by simp
next
  case (Cons i frames)
  obtain c1 out where l: "loop i c = (c1, out)" by (cases "loop i c")
  have a: "out = [] \<and> cooldownRef c1 = cooldownRef c"
    using loop_in_cooldown [of i c] Cons.prems l by simp
  then have "\<forall>j\<in>set frames. now j < cooldownRef c1" using Cons.prems by simp
  then have "snd (runLoop frames c1) = [] \<and> cooldownRef (fst (runLoop frames c1)) = cooldownRef c1"
    by (rule Cons.IH)
  then show ?case using a l by (simp only: runLoop_Cons) simp
qed

lemma loop_trigger:
  assumes "loop i c = (c', out)" and "out \<noteq> []"
  shows "cooldownRef c \<le> now i \<and>
         cooldownRef c' = now i + (if mode i = Hand then 1000 else 500)"
  using assms
  by (cases "mode i")
     (auto simp: loop_def loopHand_def loopSwipe_def loopOrientation_def Let_def
       split: option.splits if_splits)


text \<open>
  C6. A frame of the loop that emits a flip intent does so at or after the cooldown
  deadline, and sets the deadline to 1000ms later in hand mode and 500ms later in the
  swipe and orientation modes. Frames before the new deadline, whatever their mode and
  whatever the hand shows, emit no intent of either direction and leave the deadline
  where it is.
\<close>

theorem cooldown_enforced:
  assumes "loop i c = (c', out)" and "out \<noteq> []"
    and "\<forall>j\<in>set frames. now j < cooldownRef c'"
  shows "cooldownRef c \<le> now i \<and>
         cooldownRef c' = now i + (if mode i = Hand then 1000 else 500) \<and>
         snd (runLoop frames c') = [] \<and>
         cooldownRef (fst (runLoop frames c')) = cooldownRef c'"
  using loop_trigger [OF assms(1,2)] runLoop_in_cooldown [OF assms(3)] by simp

theorem cooldown_enforced_witness:
  "loop (handFrame 1200 (Some Left)) (idleController\<lparr>holdStartRef := Some 1000\<rparr>) =
     (idleController\<lparr>holdStartRef := Some 1000, latchedRef := True, cooldownRef := 2200\<rparr>,
      [Next]) \<and>
   [Next] \<noteq> [] \<and>
   list_all (\<lambda>j. now j < cooldownRef
        (idleController\<lparr>holdStartRef := Some 1000, latchedRef := True, cooldownRef := 2200\<rparr>))
     [handFrame 1300 None, handFrame 1400 (Some Right), handFrame 1700 (Some Right),
      handFrame 2100 (Some Right)] \<and>
   cooldownRef (idleController\<lparr>holdStartRef := Some 1000\<rparr>) \<le> 1200 \<and>
   snd (runLoop [handFrame 1300 None, handFrame 1400 (Some Right), handFrame 1700 (Some Right),
                 handFrame 2100 (Some Right)]
          (idleController\<lparr>holdStartRef := Some 1000, latchedRef := True,
                            cooldownRef := 2200\<rparr>)) = []"
proof -
  let ?c = "idleController\<lparr>holdStartRef := Some 1000\<rparr>"
  let ?c' = "idleController\<lparr>holdStartRef := Some 1000, latchedRef := True, cooldownRef := 2200\<rparr>"
  let ?fs = "[handFrame 1300 None, handFrame 1400 (Some Right), handFrame 1700 (Some Right),
              handFrame 2100 (Some Right)]"
  have 1: "loop (handFrame 1200 (Some Left)) ?c = (?c', [Next])"
    by (simp add: loop_def loopHand_def handFrame_def idleController_def Let_def)
  have 2: "[Next] \<noteq> []" by simp
  have 3: "\<forall>j\<in>set ?fs. now j < cooldownRef ?c'" by (simp add: handFrame_def)
  show ?thesis using cooldown_enforced [OF 1 2 3] 1 3 by (simp add: handFrame_def idleController_def)
qed

lemma latched_silent:
  "latchedRef c \<Longrightarrow> \<forall>i\<in>set fs. mode i = Hand \<and> handSide i \<noteq> None \<Longrightarrow>
   snd (runLoop fs c) = [] \<and> latchedRef (fst (runLoop fs c))"
proof (induction fs arbitrary: c)
  case Nil
  then show ?case by simp
next
  case (Cons i fs)
  obtain c1 out where l: "loop i c = (c1, out)" by (cases "loop i c")
  have a: "out = [] \<and> latchedRef c1"
    using Cons.prems l by (auto simp: loop_def loopHand_def Let_def split: option.splits)
  then have "snd (runLoop fs c1) = [] \<and> latchedRef (fst (runLoop fs c1))"
    using Cons.IH [of c1] Cons.prems(2) by simp
  then show ?case using a l by (simp only: runLoop_Cons) simp
qed

lemma hold_fires_once:
  "\<not> latchedRef c \<Longrightarrow> holdStartRef c = Some h \<Longrightarrow> h \<noteq> 0 \<Longrightarrow>
   \<forall>i\<in>set fs. mode i = Hand \<and> handSide i = Some sd \<Longrightarrow>
   \<exists>i\<in>set fs. h + 200 \<le> now i \<and> cooldownRef c \<le> now i \<Longrightarrow>
   snd (runLoop fs c) = [if sd = Left then Next else Prev]"
proof (induction fs arbitrary: c)
  case Nil
  then show ?case by simp
next
  case (Cons i fs)
  have hand: "mode i = Hand" "handSide i = Some sd" using Cons.prems(4) by simp_all
  show ?case
  proof (cases "h + 200 \<le> now i \<and> cooldownRef c \<le> now i")
    case True
    let ?c1 = "c\<lparr>holdStartRef := Some h, latchedRef := True, cooldownRef := now i + 1000\<rparr>"
    have l: "loop i c = (?c1, [if sd = Left then Next else Prev])"
      using True hand Cons.prems(1,2,3) by (simp add: loop_def loopHand_def Let_def)
    have "snd (runLoop fs ?c1) = [] \<and> latchedRef (fst (runLoop fs ?c1))"
      using Cons.prems(4) by (intro latched_silent) simp_all
    then show ?thesis using l by (simp only: runLoop_Cons) simp
  next
    case False
    have l: "loop i c = (c, [])"
      using False hand Cons.prems(1,2,3) by (auto simp: loop_def loopHand_def Let_def)
    have "\<exists>j\<in>set fs. h + 200 \<le> now j \<and> cooldownRef c \<le> now j"
      using Cons.prems(5) False by auto
    then have "snd (runLoop fs c) = [if sd = Left then Next else Prev]"
      using Cons.IH [of c] Cons.prems by simp
    then show ?thesis using l by (simp only: runLoop_Cons) simp
  qed
qed


text \<open>
  C4. Hand mode, the same side shown in every frame, from a frame at a positive time
  to a frame at least 2000ms later, starting with no hold running, the latch open and a
  cooldown deadline at most 1000ms after the first frame (the longest cooldown the code
  sets): the frames together emit exactly one flip intent, next for the left hand and
  previous for the right.
\<close>

theorem continuous_hold_fires_once:
  assumes "fs \<noteq> []" and "\<forall>i\<in>set fs. mode i = Hand \<and> handSide i = Some sd"
    and "0 < now (hd fs)" and "now (hd fs) + 2000 \<le> now (last fs)"
    and "holdStartRef c = None" and "\<not> latchedRef c"
    and "cooldownRef c \<le> now (hd fs) + 1000"
  shows "snd (runLoop fs c) = [if sd = Left then Next else Prev]"
proof -
  obtain i0 rest where fs: "fs = i0 # rest" using assms(1) by (cases fs) auto
  have hand: "mode i0 = Hand" "handSide i0 = Some sd" using assms(2) fs by simp_all
  let ?c1 = "c\<lparr>holdStartRef := Some (now i0)\<rparr>"
  have l: "loop i0 c = (?c1, [])"
    using hand assms(5) by (simp add: loop_def loopHand_def Let_def)
  have ne: "rest \<noteq> []" using assms(4) fs by (cases rest) auto
  then have lastin: "last fs \<in> set rest" using fs by simp
  have q: "\<exists>i\<in>set rest. now i0 + 200 \<le> now i \<and> cooldownRef ?c1 \<le> now i"
    using lastin assms(4,7) fs by (intro bexI [of _ "last fs"]) auto
  have "snd (runLoop rest ?c1) = [if sd = Left then Next else Prev]"
    using assms(2,3,6) fs q by (intro hold_fires_once [of ?c1 "now i0"]) auto
  then show ?thesis using l unfolding fs by (simp only: runLoop_Cons) simp
qed


theorem continuous_hold_fires_once_witness:
  "[handFrame 1000 (Some Left), handFrame 1100 (Some Left), handFrame 1500 (Some Left),
    handFrame 3000 (Some Left)] \<noteq> [] \<and>
   list_all (\<lambda>i. mode i = Hand \<and> handSide i = Some Left)
     [handFrame 1000 (Some Left), handFrame 1100 (Some Left), handFrame 1500 (Some Left),
      handFrame 3000 (Some Left)] \<and>
   0 < now (hd [handFrame 1000 (Some Left), handFrame 1100 (Some Left),
                handFrame 1500 (Some Left), handFrame 3000 (Some Left)]) \<and>
   now (hd [handFrame 1000 (Some Left), handFrame 1100 (Some Left),
            handFrame 1500 (Some Left), handFrame 3000 (Some Left)]) + 2000 \<le>
     now (last [handFrame 1000 (Some Left), handFrame 1100 (Some Left),
                handFrame 1500 (Some Left), handFrame 3000 (Some Left)]) \<and>
   holdStartRef idleController = None \<and> \<not> latchedRef idleController \<and>
   cooldownRef idleController \<le> 1000 + 1000 \<and>
   snd (runLoop [handFrame 1000 (Some Left), handFrame 1100 (Some Left),
                 handFrame 1500 (Some Left), handFrame 3000 (Some Left)] idleController) = [Next]"
  using continuous_hold_fires_once [of "[handFrame 1000 (Some Left), handFrame 1100 (Some Left),
    handFrame 1500 (Some Left), handFrame 3000 (Some Left)]" Left idleController]
  by (simp add: handFrame_def idleController_def)

lemma runLoop_append:
  "snd (runLoop (xs @ ys) c) = snd (runLoop xs c) @ snd (runLoop ys (fst (runLoop xs c))) \<and>
   fst (runLoop (xs @ ys) c) = fst (runLoop ys (fst (runLoop xs c)))"
proof (induction xs arbitrary: c)
  case Nil
  then show ?case by simp
next
  case (Cons i xs)
  have "(i # xs) @ ys = i # (xs @ ys)" by simp
  then show ?case using Cons.IH [of "fst (loop i c)"] by (simp only: runLoop_Cons) simp
qed

lemma brief_hold_silent:
  "\<forall>i\<in>set fs. mode i = Hand \<and> handSide i \<noteq> None \<and> t0 \<le> now i \<and> now i < t0 + 200 \<Longrightarrow>
   holdStartRef c = None \<or> (\<exists>h. holdStartRef c = Some h \<and> (h = 0 \<or> t0 \<le> h)) \<Longrightarrow>
   snd (runLoop fs c) = []"
proof (induction fs arbitrary: c)
  case Nil
  then show ?case by simp
next
  case (Cons i fs)
  have f: "mode i = Hand" "handSide i \<noteq> None" "t0 \<le> now i" "now i < t0 + 200"
    using Cons.prems(1) by simp_all
  have a: "snd (loop i c) = []"
    using f Cons.prems(2) by (auto simp: loop_def loopHand_def Let_def split: option.splits)
  have b: "holdStartRef (fst (loop i c)) = None \<or>
      (\<exists>h. holdStartRef (fst (loop i c)) = Some h \<and> (h = 0 \<or> t0 \<le> h))"
    using f Cons.prems(2) by (auto simp: loop_def loopHand_def Let_def split: option.splits)
  have "snd (runLoop fs (fst (loop i c))) = []"
    using Cons.prems(1) b Cons.IH [of "fst (loop i c)"] by simp
  then show ?case using a by (simp only: runLoop_Cons) simp
qed

text \<open>
  C5, as stated, fails: a change of side does not reset the hold timer. With the left
  hand at 1000ms and the right hand at 1100ms the timer still holds 1000, and when the
  left hand shows again at 1200ms, after two changes of side within 200ms, the frame
  emits a next intent.
\<close>

theorem alternation_fires:
  "holdStartRef (fst (runLoop [handFrame 1000 (Some Left), handFrame 1100 (Some Right)]
                   idleController)) = Some 1000 \<and>
   snd (runLoop [handFrame 1000 (Some Left), handFrame 1100 (Some Right),
                 handFrame 1200 (Some Left)] idleController) = [Next]"
  by code_simp


text \<open>
  C5, amended. The hold timer is reset to null, and the latch opened, by every frame in
  which no hand is detected; a frame that shows a hand keeps a running timer whichever
  side it shows (the controller keeps no record of the side). So a hand shown, on
  either side or alternating, in frames spanning at most 150ms after no hold was
  running, and then gone, emits no flip intent and leaves the timer null.
\<close>

theorem hold_timer_reset:
  assumes "\<forall>i\<in>set fs. mode i = Hand \<and> handSide i \<noteq> None \<and> t0 \<le> now i \<and> now i \<le> t0 + 150"
    and "holdStartRef c = None"
  shows "snd (runLoop (fs @ [handFrame t None]) c) = [] \<and>
         holdStartRef (fst (runLoop (fs @ [handFrame t None]) c)) = None \<and>
         \<not> latchedRef (fst (runLoop (fs @ [handFrame t None]) c)) \<and>
         holdStartRef (fst (loopHand (handFrame t None) c')) = None \<and>
         holdStartRef (fst (loopHand (handFrame t (Some sd)) (c'\<lparr>holdStartRef := Some h\<rparr>))) =
           Some (if h = 0 then t else h)"
proof -
  have "\<forall>i\<in>set fs. mode i = Hand \<and> handSide i \<noteq> None \<and> t0 \<le> now i \<and> now i < t0 + 200"
    using assms(1) by auto
  then have 1: "snd (runLoop fs c) = []"
    using assms(2) brief_hold_silent [of fs t0 c] by simp
  have 2: "loop (handFrame t None) x = (x\<lparr>holdStartRef := None, latchedRef := False\<rparr>, [])" for x
    by (simp add: loop_def loopHand_def handFrame_def)
  show ?thesis
    using 1 2 by (simp add: runLoop_append) (simp add: loopHand_def handFrame_def Let_def)
qed

theorem hold_timer_reset_witness:
  "list_all (\<lambda>i. mode i = Hand \<and> handSide i \<noteq> None \<and> 1000 \<le> now i \<and> now i \<le> 1000 + 150)
     [handFrame 1000 (Some Left), handFrame 1100 (Some Right), handFrame 1150 (Some Right)] \<and>
   holdStartRef idleController = None \<and>
   snd (runLoop ([handFrame 1000 (Some Left), handFrame 1100 (Some Right),
                  handFrame 1150 (Some Right)] @ [handFrame 1160 None]) idleController) = [] \<and>
   holdStartRef (fst (runLoop ([handFrame 1000 (Some Left), handFrame 1100 (Some Right),
                  handFrame 1150 (Some Right)] @ [handFrame 1160 None]) idleController)) = None \<and>
   holdStartRef (fst (loopHand (handFrame 1160 (Some Right))
                  (idleController\<lparr>holdStartRef := Some 1000\<rparr>))) = Some 1000"
  using hold_timer_reset [of "[handFrame 1000 (Some Left), handFrame 1100 (Some Right),
      handFrame 1150 (Some Right)]" 1000 idleController 1160 idleController Right 1000]
  by (simp add: handFrame_def idleController_def)


section \<open>Properties of the motion extractor\<close>

lemma window_offsets: "forRange (-4) 5 1 = [-4, -3, -2, -1, 0, 1, 2, 3, 4]"
  by (simp add: forRange.simps)

lemma searchStep_eq:
  "searchStep cur y x (pixel prev (y * width + x)) (b, m) dx =
     (if dx \<noteq> 0 \<and> matchError prev cur y x dx < m * 0.8
      then (dx, matchError prev cur y x dx) else (b, m))"
  by (simp add: searchStep_def matchError_def Let_def)

lemma matchError_nonneg: "0 \<le> matchError prev cur y x dx"
  by (simp add: matchError_def)

lemma searchStep_inv:
  assumes "searchInv prev cur y x best"
  shows "searchInv prev cur y x (searchStep cur y x (pixel prev (y * width + x)) best dx)"
proof -
  obtain b m where bm: "best = (b, m)" by (cases best)
  have z: "0 \<le> matchError prev cur y x 0" by (rule matchError_nonneg)
  have le: "m * 0.8 \<le> 0.8 * matchError prev cur y x 0"
    using assms z unfolding bm searchInv_def by auto
  show ?thesis
    using assms le unfolding bm searchStep_eq searchInv_def by auto
qed

lemma search_inv:
  "searchInv prev cur y x best \<Longrightarrow>
   searchInv prev cur y x (foldl (searchStep cur y x (pixel prev (y * width + x))) best ds)"
  by (induction ds arbitrary: best) (simp_all add: searchStep_inv)

lemma search_member:
  "fst (foldl (searchStep cur y x pv) best ds) \<in> insert (fst best) (set ds)"
proof (induction ds arbitrary: best)
  case Nil
  then show ?case by simp
next
  case (Cons d ds)
  have "fst (searchStep cur y x pv best d) = fst best \<or> fst (searchStep cur y x pv best d) = d"
    by (simp add: searchStep_def Let_def)
  then show ?case using Cons.IH [of "searchStep cur y x pv best d"] by auto
qed

lemma search_stays_nonzero:
  "fst best \<noteq> 0 \<Longrightarrow> fst (foldl (searchStep cur y x pv) best ds) \<noteq> 0"
proof (induction ds arbitrary: best)
  case Nil
  then show ?case by simp
next
  case (Cons d ds)
  have "fst (searchStep cur y x pv best d) \<noteq> 0"
    using Cons.prems by (simp add: searchStep_def Let_def)
  then show ?case using Cons.IH [of "searchStep cur y x pv best d"] by simp
qed

lemma search_finds:
  assumes "\<exists>dx\<in>set ds. dx \<noteq> 0 \<and> matchError prev cur y x dx < 0.8 * matchError prev cur y x 0"
  shows "fst (foldl (searchStep cur y x (pixel prev (y * width + x)))
               (0, matchError prev cur y x 0) ds) \<noteq> 0"
  using assms
proof (induction ds)
  case Nil
  then show ?case by simp
next
  case (Cons d ds)
  let ?z = "matchError prev cur y x 0"
  show ?case
  proof (cases "d \<noteq> 0 \<and> matchError prev cur y x d < 0.8 * ?z")
    case True
    then have "searchStep cur y x (pixel prev (y * width + x)) (0, ?z) d =
        (d, matchError prev cur y x d)"
      by (simp add: searchStep_eq)
    then show ?thesis using True search_stays_nonzero [of "(d, matchError prev cur y x d)"] by simp
  next
    case False
    then have "searchStep cur y x (pixel prev (y * width + x)) (0, ?z) d = (0, ?z)"
      by (auto simp: searchStep_eq)
    moreover have "\<exists>dx\<in>set ds. dx \<noteq> 0 \<and> matchError prev cur y x dx < 0.8 * ?z"
      using Cons.prems False by auto
    ultimately show ?thesis using Cons.IH by simp
  qed
qed

lemma searchWindow_eq:
  "searchWindow prev cur y x =
     foldl (searchStep cur y x (pixel prev (y * width + x))) (0, matchError prev cur y x 0)
       [-4, -3, -2, -1, 0, 1, 2, 3, 4]"
  by (simp add: searchWindow_def matchError_def Let_def window_offsets)

lemma searchWindow_inv: "searchInv prev cur y x (searchWindow prev cur y x)"
  unfolding searchWindow_eq by (rule search_inv) (simp add: searchInv_def)

lemma searchWindow_bounds:
  "-4 \<le> fst (searchWindow prev cur y x) \<and> fst (searchWindow prev cur y x) \<le> 4"
  using search_member [of cur y x "pixel prev (y * width + x)" "(0, matchError prev cur y x 0)"
      "[-4, -3, -2, -1, 0, 1, 2, 3, 4]"]
  unfolding searchWindow_eq by auto


text \<open>
  C8. At every sample point the search over the offsets -4 to 4 ends at a nonzero offset
  exactly when some nonzero offset of the window has a match error strictly below 0.8
  times the zero-offset error; the error it ends with is that of the offset it returns,
  and for a nonzero offset it is below 0.8 times the zero-offset error. The returned
  offset lies between -4 and 4. Otherwise the offset stays 0, and the point adds to
  \<open>deltaX\<close> and \<open>validPoints\<close> only when the offset is not 0 (and its gradient is at
  least 30).
\<close>

theorem sticky_zero:
  "(fst (searchWindow prevFrame currentFrame y x) \<noteq> 0 \<longleftrightarrow>
      (\<exists>dx\<in>{-4..4}. dx \<noteq> 0 \<and>
         matchError prevFrame currentFrame y x dx < 0.8 * matchError prevFrame currentFrame y x 0)) \<and>
   snd (searchWindow prevFrame currentFrame y x) =
      matchError prevFrame currentFrame y x (fst (searchWindow prevFrame currentFrame y x)) \<and>
   (fst (searchWindow prevFrame currentFrame y x) = 0 \<or>
    snd (searchWindow prevFrame currentFrame y x) < 0.8 * matchError prevFrame currentFrame y x 0) \<and>
   -4 \<le> fst (searchWindow prevFrame currentFrame y x) \<and>
   fst (searchWindow prevFrame currentFrame y x) \<le> 4 \<and>
   samplePoint prevFrame currentFrame y acc x =
     (if \<bar>pixel prevFrame (y * width + x - 1) - pixel prevFrame (y * width + x + 1)\<bar> < 30 \<or>
         fst (searchWindow prevFrame currentFrame y x) = 0
      then acc
      else (fst acc + fst (searchWindow prevFrame currentFrame y x), snd acc + 1))"
proof -
  let ?w = "searchWindow prevFrame currentFrame y x"
  let ?E = "matchError prevFrame currentFrame y x"
  have inv: "searchInv prevFrame currentFrame y x ?w" by (rule searchWindow_inv)
  have s: "set [-4, -3, -2, -1, 0, 1, 2, 3, 4] = {-4..4::int}" by auto
  have fwd: "fst ?w \<noteq> 0 \<Longrightarrow> \<exists>dx\<in>{-4..4}. dx \<noteq> 0 \<and> ?E dx < 0.8 * ?E 0"
    using inv searchWindow_bounds [of prevFrame currentFrame y x]
    by (intro bexI [of _ "fst ?w"]) (auto simp: searchInv_def)
  have bwd: "fst ?w \<noteq> 0" if ex: "\<exists>dx\<in>{-4..4}. dx \<noteq> 0 \<and> ?E dx < 0.8 * ?E 0"
  proof -
    have "\<exists>dx\<in>set [-4, -3, -2, -1, 0, 1, 2, 3, 4]. dx \<noteq> 0 \<and> ?E dx < 0.8 * ?E 0"
      using ex unfolding s .
    then show ?thesis unfolding searchWindow_eq by (rule search_finds)
  qed
  have 1: "fst ?w \<noteq> 0 \<longleftrightarrow> (\<exists>dx\<in>{-4..4}. dx \<noteq> 0 \<and> ?E dx < 0.8 * ?E 0)"
    using fwd bwd by blast
  have 2: "snd ?w = ?E (fst ?w)" using inv by (auto simp: searchInv_def)
  have 3: "fst ?w = 0 \<or> snd ?w < 0.8 * ?E 0" using inv by (auto simp: searchInv_def)
  have 4: "samplePoint prevFrame currentFrame y acc x =
     (if \<bar>pixel prevFrame (y * width + x - 1) - pixel prevFrame (y * width + x + 1)\<bar> < 30 \<or>
         fst ?w = 0
      then acc else (fst acc + fst ?w, snd acc + 1))"
    by (simp add: samplePoint_def Let_def)
  show ?thesis using 1 2 3 4 searchWindow_bounds [of prevFrame currentFrame y x] by blast
qed



theorem sticky_zero_witness:
  "(2::int) \<in> {-4..4} \<and>
   matchError ((replicate 3072 100)[649 := 0, 651 := 200]) ((replicate 3072 0)[652 := 100]) 10 10 2
     < 0.8 * matchError ((replicate 3072 100)[649 := 0, 651 := 200])
               ((replicate 3072 0)[652 := 100]) 10 10 0 \<and>
   fst (searchWindow ((replicate 3072 100)[649 := 0, 651 := 200])
          ((replicate 3072 0)[652 := 100]) 10 10) \<noteq> 0 \<and>
   snd (searchWindow ((replicate 3072 100)[649 := 0, 651 := 200])
          ((replicate 3072 0)[652 := 100]) 10 10)
     < 0.8 * matchError ((replicate 3072 100)[649 := 0, 651 := 200])
               ((replicate 3072 0)[652 := 100]) 10 10 0 \<and>
   samplePoint ((replicate 3072 100)[649 := 0, 651 := 200]) ((replicate 3072 0)[652 := 100])
       10 (0, 0) 10 =
     (fst (searchWindow ((replicate 3072 100)[649 := 0, 651 := 200])
             ((replicate 3072 0)[652 := 100]) 10 10), 1)"
proof -
  let ?P = "(replicate 3072 (100::8 word))[649 := 0, 651 := 200]"
  let ?C = "(replicate 3072 (0::8 word))[652 := 100]"
  let ?w = "searchWindow ?P ?C 10 10"
  have e: "matchError ?P ?C 10 10 2 < 0.8 * matchError ?P ?C 10 10 0"
    by (simp add: matchError_def pixel_def width_def)
  have m: "(2::int) \<in> {-4..4}" by simp
  have g: "\<not> \<bar>pixel ?P (10 * width + 10 - 1) - pixel ?P (10 * width + 10 + 1)\<bar> < 30"
    by (simp add: pixel_def width_def)
  have x: "\<exists>dx\<in>{-4..4}. dx \<noteq> 0 \<and> matchError ?P ?C 10 10 dx < 0.8 * matchError ?P ?C 10 10 0"
    using e m by (intro bexI [of _ 2]) simp_all
  note t = sticky_zero [of ?P ?C 10 10 "(0, 0)"]
  have nz: "fst ?w \<noteq> 0" using t x by blast
  have lt: "snd ?w < 0.8 * matchError ?P ?C 10 10 0" using t nz by blast
  let ?a = "(0::int, 0::nat)"
  have "samplePoint ?P ?C 10 ?a 10 = (fst ?a + fst ?w, snd ?a + 1)"
    using t g nz by (simp only: simp_thms if_False)
  then have sp: "samplePoint ?P ?C 10 (0, 0) 10 = (fst ?w, 1)" by simp
  show ?thesis using e m nz lt sp by blast
qed


lemma samplePoint_bound:
  assumes "\<bar>fst acc\<bar> \<le> 4 * int (snd acc)"
  shows "\<bar>fst (samplePoint prev cur y acc x)\<bar> \<le> 4 * int (snd (samplePoint prev cur y acc x))"
proof -
  let ?b = "fst (searchWindow prev cur y x)"
  have b: "\<bar>?b\<bar> \<le> 4" using searchWindow_bounds [of prev cur y x] by auto
  have "samplePoint prev cur y acc x = acc \<or>
        samplePoint prev cur y acc x = (fst acc + ?b, snd acc + 1)"
    by (simp add: samplePoint_def Let_def)
  then show ?thesis
  proof
    assume "samplePoint prev cur y acc x = acc"
    then show ?thesis using assms by simp
  next
    assume e: "samplePoint prev cur y acc x = (fst acc + ?b, snd acc + 1)"
    have "\<bar>fst acc + ?b\<bar> \<le> 4 * int (snd acc) + 4" using assms b by linarith
    then show ?thesis by (simp add: e)
  qed
qed

lemma row_bound:
  "\<bar>fst acc\<bar> \<le> 4 * int (snd acc) \<Longrightarrow>
   \<bar>fst (foldl (samplePoint prev cur y) acc xs)\<bar>
     \<le> 4 * int (snd (foldl (samplePoint prev cur y) acc xs))"
  by (induction xs arbitrary: acc) (simp_all add: samplePoint_bound)

lemma rows_bound:
  "\<bar>fst acc\<bar> \<le> 4 * int (snd acc) \<Longrightarrow>
   \<bar>fst (foldl (\<lambda>acc y. foldl (samplePoint prev cur y) acc xs) acc ys)\<bar>
     \<le> 4 * int (snd (foldl (\<lambda>acc y. foldl (samplePoint prev cur y) acc xs) acc ys))"
  by (induction ys arbitrary: acc) (simp_all add: row_bound)

lemma flowEstimate_bound:
  "\<bar>fst (flowEstimate prev cur)\<bar> \<le> 4 * int (snd (flowEstimate prev cur))"
  unfolding flowEstimate_def by (rule rows_bound) simp

lemma registerGesture_events:
  "snd (registerGesture time est st) =
     (if 5 < snd est \<and> 0.5 < \<bar>real_of_int (fst est) / real (snd est)\<bar>
      then [Gesture (real_of_int (fst est) / real (snd est) * 30)] else [])"
  by (simp add: registerGesture_def Let_def)

lemma registerGesture_decisive:
  assumes "\<bar>fst est\<bar> \<le> 4 * int (snd est)"
  shows "list_all decisive (snd (registerGesture time est st))"
proof (cases "5 < snd est \<and> 0.5 < \<bar>real_of_int (fst est) / real (snd est)\<bar>")
  case False
  then show ?thesis by (auto simp: registerGesture_events)
next
  case True
  let ?a = "real_of_int (fst est) / real (snd est)"
  have pos: "0 < real (snd est)" using True by simp
  have "real_of_int \<bar>fst est\<bar> \<le> real_of_int (4 * int (snd est))"
    using assms by (simp only: of_int_le_iff)
  then have "\<bar>real_of_int (fst est)\<bar> \<le> 4 * real (snd est)" by simp
  then have le4: "\<bar>?a\<bar> \<le> 4" using pos by (simp add: field_simps)
  have gt: "0.5 < \<bar>?a\<bar>" using True by blast
  have am: "\<bar>?a * 30\<bar> = \<bar>?a\<bar> * 30" by (simp add: abs_mult)
  have h1: "a * 30 \<le> 120" if "a \<le> 4" for a :: real using that by simp
  have h2: "15 < a * 30" if "0.5 < a" for a :: real using that by simp
  have "\<bar>?a * 30\<bar> \<le> 120" unfolding am using le4 by (rule h1)
  moreover have "15 < \<bar>?a * 30\<bar>" unfolding am using gt by (rule h2)
  ultimately show ?thesis using True by (simp add: registerGesture_events decisive_def)
qed


text \<open>
  C7. The calls of \<open>onGesture\<close> a frame makes: none when there is no previous frame;
  otherwise one call with 30 times the average offset exactly when more than 5 points
  are confident and the absolute average offset is above 0.5, and none in every other
  case. Whatever the frames, a delta that is emitted has magnitude above 15 and at most
  120, so never a small one. An estimate that averages 0.3 over 10 points emits
  nothing, and neither does a large offset found at only 5 points.
\<close>

theorem deadzone_gate:
  "filter isGesture (snd (processFrame time currentFrame st)) =
     (case prevFrameRef st of
        None \<Rightarrow> []
      | Some prevFrame \<Rightarrow>
          let deltaX = fst (flowEstimate prevFrame currentFrame);
              validPoints = snd (flowEstimate prevFrame currentFrame);
              avgDx = real_of_int deltaX / real validPoints
          in if 5 < validPoints \<and> 0.5 < \<bar>avgDx\<bar> then [Gesture (avgDx * 30)] else []) \<and>
   list_all decisive (snd (processFrame time currentFrame st)) \<and>
   snd (registerGesture time (3, 10) st) = [] \<and>
   snd (registerGesture time (20, 5) st) = []"
proof -
  obtain st1 ev1 where a: "(case prevFrameRef st of None \<Rightarrow> (st, [])
      | Some prevFrame \<Rightarrow> registerGesture time (flowEstimate prevFrame currentFrame) st) = (st1, ev1)"
    by (cases "case prevFrameRef st of None \<Rightarrow> (st, [])
      | Some prevFrame \<Rightarrow> registerGesture time (flowEstimate prevFrame currentFrame) st")
  obtain st2 ev2 where b: "(if isActiveRef st1 \<and> time - lastMotionTime st1 > 150
             then (st1\<lparr>isActiveRef := False, motionAccumulator := 0\<rparr>, [GestureEnd])
             else (st1, [])) = (st2, ev2)"
    by (cases "if isActiveRef st1 \<and> time - lastMotionTime st1 > 150
             then (st1\<lparr>isActiveRef := False, motionAccumulator := 0\<rparr>, [GestureEnd])
             else (st1, [])")
  have ev: "snd (processFrame time currentFrame st) = ev1 @ ev2"
    by (simp add: processFrame_def a b)
  have e2: "ev2 = [] \<or> ev2 = [GestureEnd]" using b by (auto split: if_splits)
  have e1: "ev1 = (case prevFrameRef st of None \<Rightarrow> []
      | Some prevFrame \<Rightarrow> snd (registerGesture time (flowEstimate prevFrame currentFrame) st))"
    using a by (auto split: option.splits)
  have f1: "filter isGesture ev1 = ev1"
    unfolding e1 by (auto simp: registerGesture_events isGesture_def split: option.splits)
  have f2: "filter isGesture ev2 = []" using e2 by (auto simp: isGesture_def)
  have d1: "list_all decisive ev1"
    unfolding e1 using registerGesture_decisive [OF flowEstimate_bound]
    by (auto split: option.splits)
  have d2: "list_all decisive ev2" using e2 by (auto simp: decisive_def)
  have 1: "filter isGesture (snd (processFrame time currentFrame st)) =
     (case prevFrameRef st of
        None \<Rightarrow> []
      | Some prevFrame \<Rightarrow>
          let deltaX = fst (flowEstimate prevFrame currentFrame);
              validPoints = snd (flowEstimate prevFrame currentFrame);
              avgDx = real_of_int deltaX / real validPoints
          in if 5 < validPoints \<and> 0.5 < \<bar>avgDx\<bar> then [Gesture (avgDx * 30)] else [])"
    unfolding ev using f1 f2 e1 by (simp add: registerGesture_events Let_def split: option.splits)
  have 2: "list_all decisive (snd (processFrame time currentFrame st))"
    unfolding ev using d1 d2 by simp
  show ?thesis using 1 2 by (simp add: registerGesture_events)
qed


theorem deadzone_gate_witness:
  "filter isGesture (snd (processFrame 1000 (replicate 3072 0)
      \<lparr>prevFrameRef = None, isActiveRef = True, motionAccumulator = 2, lastMotionTime = 800\<rparr>)) = [] \<and>
   list_all decisive (snd (processFrame 1000 (replicate 3072 0)
      \<lparr>prevFrameRef = None, isActiveRef = True, motionAccumulator = 2, lastMotionTime = 800\<rparr>)) \<and>
   snd (registerGesture 1000 (3, 10)
      \<lparr>prevFrameRef = None, isActiveRef = True, motionAccumulator = 2, lastMotionTime = 800\<rparr>) = []"
  using deadzone_gate [of 1000 "replicate 3072 0"
      "\<lparr>prevFrameRef = None, isActiveRef = True, motionAccumulator = 2, lastMotionTime = 800\<rparr>"]
  by simp




end
